theory Spec2Isabelle
  imports Complex_Main "HOL-Library.Word" "HOL-Library.AList"
begin

section \<open>JavaScript strings\<close>

text \<open>
  A JavaScript string is a sequence of 16-bit code units. The literals of the source are
  ASCII, so \<open>js\<close> embeds an Isabelle string literal code unit by code unit.
\<close>

type_synonym jschar = "16 word"
type_synonym jsstring = "jschar list"

definition js :: "string \<Rightarrow> jsstring" where
  "js s = map (\<lambda>c. of_nat (of_char c)) s"

text \<open>
  The character classes of ECMAScript: \<open>WhiteSpace\<close> (TAB, VT, FF, SP, NBSP, ZWNBSP and
  the category Zs) and \<open>LineTerminator\<close> (LF, CR, LS, PS). The regular expression class
  \<open>\s\<close> and \<open>String.prototype.trim\<close> both use their union; \<open>.\<close> (without the \<open>s\<close> flag)
  is every code unit that is not a line terminator; \<open>\d\<close> is \<open>0\<close>..\<open>9\<close>.
\<close>

definition isWhiteSpace :: "jschar \<Rightarrow> bool" where
  "isWhiteSpace c \<longleftrightarrow>
     c = 0x09 \<or> c = 0x0B \<or> c = 0x0C \<or> c = 0x20 \<or> c = 0xA0 \<or> c = 0x1680 \<or>
     (0x2000 \<le> c \<and> c \<le> 0x200A) \<or> c = 0x202F \<or> c = 0x205F \<or> c = 0x3000 \<or> c = 0xFEFF"

definition isLineTerminator :: "jschar \<Rightarrow> bool" where
  "isLineTerminator c \<longleftrightarrow> c = 0x0A \<or> c = 0x0D \<or> c = 0x2028 \<or> c = 0x2029"

definition isSpace :: "jschar \<Rightarrow> bool" where
  "isSpace c \<longleftrightarrow> isWhiteSpace c \<or> isLineTerminator c"

definition isDigit :: "jschar \<Rightarrow> bool" where
  "isDigit c \<longleftrightarrow> 0x30 \<le> c \<and> c \<le> 0x39"

definition comma :: jschar where "comma = 0x2C"
definition lparen :: jschar where "lparen = 0x28"
definition rparen :: jschar where "rparen = 0x29"
definition rbracket :: jschar where "rbracket = 0x5D"

text \<open>\<open>String.prototype.trim\<close>.\<close>

definition trim :: "jsstring \<Rightarrow> jsstring" where
  "trim s = rev (dropWhile isSpace (rev (dropWhile isSpace s)))"

text \<open>
  \<open>String.prototype.split\<close> with a separator that matches exactly one code unit (the
  string \<open>','\<close>, the class \<open>[/\\]\<close>) and no limit: the pieces between the separators, at
  least one piece.
\<close>

fun splitOn :: "('a \<Rightarrow> bool) \<Rightarrow> 'a list \<Rightarrow> 'a list list" where
  "splitOn P [] = [[]]"
| "splitOn P (c # cs) =
     (if P c then [] # splitOn P cs
      else (c # hd (splitOn P cs)) # tl (splitOn P cs))"

section \<open>The citation parser of the sources grid\<close>

text \<open>
  \<open>sourceString.replace(/^\[Source:\s*/, '')\<close>: the prefix \<open>[Source:\<close> and the white
  space after it are removed when the string starts with it.
\<close>

definition stripSourcePrefix :: "jsstring \<Rightarrow> jsstring" where
  "stripSourcePrefix s =
     (if take 8 s = js ''[Source:'' then dropWhile isSpace (drop 8 s) else s)"

text \<open>\<open>.replace(/\]$/, '')\<close>: a closing bracket at the very end is removed.\<close>

definition stripCloseBracket :: "jsstring \<Rightarrow> jsstring" where
  "stripCloseBracket s = (if s \<noteq> [] \<and> last s = rbracket then butlast s else s)"

definition cleanSource :: "jsstring \<Rightarrow> jsstring" where
  "cleanSource sourceString = trim (stripCloseBracket (stripSourcePrefix sourceString))"

text \<open>
  The letters of \<open>Page\<close> under the \<open>i\<close> flag (without \<open>u\<close>): a code unit matches a
  letter when it is that letter in upper or lower case.
\<close>

definition matchesPage :: "jsstring \<Rightarrow> bool" where
  "matchesPage t \<longleftrightarrow>
     (case t of
        [p, a, g, e] \<Rightarrow>
          (p = 0x50 \<or> p = 0x70) \<and> (a = 0x41 \<or> a = 0x61) \<and>
          (g = 0x47 \<or> g = 0x67) \<and> (e = 0x45 \<or> e = 0x65)
      | _ \<Rightarrow> False)"

text \<open>
  The non-capturing group followed by the end anchor,
  \<open>(?:,?\s*\(?Page\s*(\d+)\)?)$\<close>, matched against the whole rest of the string; the
  result is the text of the digit group. Every quantifier is greedy and is followed by
  something its own class cannot match (a comma is never white space, a digit is never
  a parenthesis, ...), so the backtracking matcher has one way to succeed: the greedy one.
\<close>

definition optChar :: "jschar \<Rightarrow> jsstring \<Rightarrow> jsstring" where
  "optChar x t = (case t of [] \<Rightarrow> [] | c # cs \<Rightarrow> if c = x then cs else t)"

definition pageTail :: "jsstring \<Rightarrow> jsstring option" where
  "pageTail t =
     (let t1 = optChar comma t;
          t2 = dropWhile isSpace t1;
          t3 = optChar lparen t2
      in if matchesPage (take 4 t3) then
           (let t4 = dropWhile isSpace (drop 4 t3);
                digits = takeWhile isDigit t4;
                t5 = optChar rparen (dropWhile isDigit t4)
            in if digits \<noteq> [] \<and> t5 = [] then Some digits else None)
         else None)"

text \<open>
  The lazy group \<open>(.*?)\<close> at one start position: it grows one code unit at a time (never
  over a line terminator) until the rest of the string matches the page tail.
\<close>

fun lazyDot :: "jsstring \<Rightarrow> jsstring \<Rightarrow> (jsstring \<times> jsstring) option" where
  "lazyDot acc [] = map_option (Pair acc) (pageTail [])"
| "lazyDot acc (c # cs) =
     (case pageTail (c # cs) of
        Some digits \<Rightarrow> Some (acc, digits)
      | None \<Rightarrow> if isLineTerminator c then None else lazyDot (acc @ [c]) cs)"

text \<open>
  \<open>filename.match(/(.*?)(?:,?\s*\(?Page\s*(\d+)\)?)$/i)\<close>: the pattern is not anchored at
  the start, so the matcher tries the start positions from left to right and returns
  the captures of the first one that succeeds (\<open>None\<close> is JavaScript's \<open>null\<close>).
\<close>

fun pageMatch :: "jsstring \<Rightarrow> (jsstring \<times> jsstring) option" where
  "pageMatch [] = lazyDot [] []"
| "pageMatch (c # cs) =
     (case lazyDot [] (c # cs) of
        Some r \<Rightarrow> Some r
      | None \<Rightarrow> pageMatch cs)"

text \<open>
  The staged parse of the callback: the cleaned string, then the page pattern, else the
  first comma. The result is the filename before the path is stripped, and the page
  (\<open>None\<close> is \<open>null\<close>).
\<close>

definition parseSource :: "jsstring \<Rightarrow> jsstring \<times> jsstring option" where
  "parseSource sourceString =
     (let filename = cleanSource sourceString
      in case pageMatch filename of
           Some (g1, g2) \<Rightarrow> (trim g1, Some g2)
         | None \<Rightarrow>
             if comma \<in> set filename
             then (trim (hd (splitOn (\<lambda>c. c = comma) filename)), None)
             else (filename, None))"

definition isSep :: "jschar \<Rightarrow> bool" where
  "isSep c \<longleftrightarrow> c = 0x2F \<or> c = 0x5C"

text \<open>\<open>filename.split(/[/\\]/).pop()\<close> when the filename has a slash or a backslash.\<close>

definition stripPath :: "jsstring \<Rightarrow> jsstring" where
  "stripPath filename =
     (if list_ex isSep filename then last (splitOn isSep filename) else filename)"

definition cleanFilename :: "jsstring \<Rightarrow> jsstring" where
  "cleanFilename sourceString = stripPath (fst (parseSource sourceString))"

section \<open>Grouping the sources\<close>

text \<open>
  \<open>groupedSources\<close> is a plain object \<open>{}\<close>: its own properties are kept in creation
  order, and a property read that finds no own property continues to
  \<open>Object.prototype\<close>. Each own value is an object with a \<open>Set\<close> of page strings (in
  insertion order, without repetition) and the first raw string of the group.
\<close>

record entry =
  pages :: "jsstring list"
  original :: jsstring

type_synonym grouped = "(jsstring \<times> entry) list"

text \<open>The properties every plain object inherits from \<open>Object.prototype\<close>; all are truthy.\<close>

definition objectPrototypeKeys :: "jsstring list" where
  "objectPrototypeKeys =
     [js ''constructor'', js ''hasOwnProperty'', js ''isPrototypeOf'',
      js ''propertyIsEnumerable'', js ''toLocaleString'', js ''toString'', js ''valueOf'',
      js ''__proto__'', js ''__defineGetter__'', js ''__defineSetter__'',
      js ''__lookupGetter__'', js ''__lookupSetter__'']"

datatype property = Undefined | Inherited | Own entry

datatype js_error = TypeError

text \<open>\<open>groupedSources[filename]\<close>.\<close>

definition getProp :: "grouped \<Rightarrow> jsstring \<Rightarrow> property" where
  "getProp g filename =
     (case map_of g filename of
        Some e \<Rightarrow> Own e
      | None \<Rightarrow> if filename \<in> set objectPrototypeKeys then Inherited else Undefined)"

text \<open>\<open>Set.prototype.add\<close> on the insertion-ordered set of page strings.\<close>

definition setAdd :: "jsstring \<Rightarrow> jsstring list \<Rightarrow> jsstring list" where
  "setAdd p ps = (if p \<in> set ps then ps else ps @ [p])"

text \<open>
  The body of the \<open>forEach\<close> callback. The new entry is created when the property read is
  falsy, that is \<open>undefined\<close>; \<open>page\<close> is \<open>null\<close> or a non-empty digit string, so
  \<open>if (page)\<close> is the test for a match. Reading \<open>.pages\<close> of an inherited property gives
  \<open>undefined\<close>, and calling \<open>.add\<close> on it throws a \<open>TypeError\<close>.
\<close>

definition addSource :: "grouped \<Rightarrow> jsstring \<Rightarrow> js_error + grouped" where
  "addSource g sourceString =
     (let filename = cleanFilename sourceString;
          page = snd (parseSource sourceString);
          g1 = (if getProp g filename = Undefined
                then AList.update filename \<lparr>pages = [], original = sourceString\<rparr> g
                else g)
      in case page of
           None \<Rightarrow> Inr g1
         | Some p \<Rightarrow>
             (case getProp g1 filename of
                Own e \<Rightarrow> Inr (AList.update filename (e\<lparr>pages := setAdd p (pages e)\<rparr>) g1)
              | Inherited \<Rightarrow> Inl TypeError
              | Undefined \<Rightarrow> Inl TypeError))"

text \<open>\<open>msg.sources.forEach(...)\<close>: an exception of the callback ends the loop.\<close>

fun forEachSource :: "grouped \<Rightarrow> jsstring list \<Rightarrow> js_error + grouped" where
  "forEachSource g [] = Inr g"
| "forEachSource g (sourceString # rest) =
     (case addSource g sourceString of
        Inl e \<Rightarrow> Inl e
      | Inr g' \<Rightarrow> forEachSource g' rest)"

definition groupedSources :: "jsstring list \<Rightarrow> js_error + grouped" where
  "groupedSources sources = forEachSource [] sources"

text \<open>
  \<open>Number(a)\<close> of a digit string, as an exact natural number. JavaScript computes it as
  a double, which is the same value up to \<open>2^53\<close>.
\<close>

definition numberOf :: "jsstring \<Rightarrow> nat" where
  "numberOf a = foldl (\<lambda>n c. 10 * n + (unat c - 48)) 0 a"

text \<open>
  A property name is an array index when it is the canonical decimal form of an integer
  below \<open>2^32 - 1\<close>. \<open>Object.keys\<close> lists the array indices first, in ascending numeric
  order, and then the other names in creation order.
\<close>

definition isArrayIndex :: "jsstring \<Rightarrow> bool" where
  "isArrayIndex k \<longleftrightarrow>
     k \<noteq> [] \<and> list_all isDigit k \<and> (hd k \<noteq> 0x30 \<or> length k = 1) \<and>
     length k \<le> 10 \<and> numberOf k < 4294967295"

definition objectKeys :: "grouped \<Rightarrow> jsstring list" where
  "objectKeys g =
     sort_key numberOf (filter isArrayIndex (map fst g)) @
     filter (\<lambda>k. \<not> isArrayIndex k) (map fst g)"

definition uniqueFileCount :: "grouped \<Rightarrow> nat" where
  "uniqueFileCount g = length (objectKeys g)"

text \<open>
  \<open>Array.from(source.pages).sort((a, b) => Number(a) - Number(b))\<close>: a stable sort by the
  numeric value.
\<close>

definition sortedPages :: "entry \<Rightarrow> jsstring list" where
  "sortedPages source = sort_key numberOf (pages source)"

text \<open>
  The cards of the grid, one per key of \<open>Object.keys(groupedSources)\<close>, each with its
  filename and its sorted pages. A key of \<open>Object.keys\<close> is an own property, so the
  lookup succeeds.
\<close>

definition cards :: "grouped \<Rightarrow> (jsstring \<times> jsstring list) list" where
  "cards g =
     map (\<lambda>filename.
            case map_of g filename of
              Some source \<Rightarrow> (filename, sortedPages source)
            | None \<Rightarrow> (filename, []))
         (objectKeys g)"

text \<open>
  The count shown in the summary and the cards, or the exception of the grouping. The
  component renders the grid only for a message with at least one source.
\<close>

definition sourcesGrid :: "jsstring list \<Rightarrow> js_error + nat \<times> (jsstring \<times> jsstring list) list" where
  "sourcesGrid sources =
     (case groupedSources sources of
        Inl e \<Rightarrow> Inl e
      | Inr g \<Rightarrow> Inr (uniqueFileCount g, cards g))"

section \<open>Reference notions for the statements about the sources grid\<close>

text \<open>
  The staged parse as the specification words it: the text before the first position
  whose rest is a page indicator, with the page number of that indicator.
\<close>

fun indicatorSplit :: "jsstring \<Rightarrow> jsstring \<Rightarrow> (jsstring \<times> jsstring) option" where
  "indicatorSplit before [] = map_option (Pair before) (pageTail [])"
| "indicatorSplit before (c # cs) =
     (case pageTail (c # cs) of
        Some n \<Rightarrow> Some (before, n)
      | None \<Rightarrow> indicatorSplit (before @ [c]) cs)"

definition stagedParse :: "jsstring \<Rightarrow> jsstring \<times> jsstring option" where
  "stagedParse raw =
     (let rest = cleanSource raw
      in case indicatorSplit [] rest of
           Some (before, n) \<Rightarrow> (trim before, Some n)
         | None \<Rightarrow>
             if comma \<in> set rest
             then (takeWhile (\<lambda>c. c \<noteq> comma) rest, None)
             else (rest, None))"

text \<open>The elements of a list in the order of their first appearance, each once.\<close>

definition firstAppearance :: "'a list \<Rightarrow> 'a list" where
  "firstAppearance xs = foldl (\<lambda>seen x. if x \<in> set seen then seen else seen @ [x]) [] xs"

text \<open>The pages of the raw strings whose cleaned filename is \<open>k\<close>, in input order.\<close>

definition pagesFor :: "jsstring \<Rightarrow> jsstring list \<Rightarrow> jsstring list" where
  "pagesFor k sources =
     List.map_filter (\<lambda>s. if cleanFilename s = k then snd (parseSource s) else None) sources"

definition addKey :: "jsstring list \<Rightarrow> jsstring \<Rightarrow> jsstring list" where
  "addKey ks k = (if k \<in> set ks \<or> k \<in> set objectPrototypeKeys then ks else ks @ [k])"

definition pagesOf :: "grouped \<Rightarrow> jsstring \<Rightarrow> jsstring list" where
  "pagesOf g k = (case map_of g k of Some e \<Rightarrow> pages e | None \<Rightarrow> [])"

text \<open>No own property has the name of an inherited one: an invariant of the loop.\<close>

definition ownOk :: "grouped \<Rightarrow> bool" where
  "ownOk g \<longleftrightarrow> (\<forall>k \<in> set (map fst g). k \<notin> set objectPrototypeKeys)"

section \<open>The source chips of the chat message component\<close>

text \<open>
  \<open>String.prototype.replace\<close> with a string pattern and the replacement \<open>''\<close>: the first
  occurrence of the pattern is removed, and a string without the pattern is unchanged.
\<close>

fun removeFirst :: "'a list \<Rightarrow> 'a list \<Rightarrow> 'a list" where
  "removeFirst pat [] = []"
| "removeFirst pat (c # cs) =
     (if take (length pat) (c # cs) = pat then drop (length pat) (c # cs)
      else c # removeFirst pat cs)"

text \<open>\<open>source.replace('[Source: ', '').replace(']', '')\<close>, the label of one chip.\<close>

definition chipLabel :: "jsstring \<Rightarrow> jsstring" where
  "chipLabel source = removeFirst (js '']'') (removeFirst (js ''[Source: '') source)"

text \<open>The pattern occurs in \<open>s\<close> at position \<open>i\<close>.\<close>

definition occursAt :: "'a list \<Rightarrow> 'a list \<Rightarrow> nat \<Rightarrow> bool" where
  "occursAt pat s i \<longleftrightarrow> i + length pat \<le> length s \<and> take (length pat) (drop i s) = pat"

section \<open>Retrieval score\<close>

text \<open>
  Modelled from the spec: the retriever of the backend is not among the sources. The
  specification and the design document give the conversion of a distance of the vector
  store to a similarity score as \<open>1 / (1 + distance)\<close>; it is taken over the reals.
\<close>

definition similarity :: "real \<Rightarrow> real" where
  "similarity distance = 1 / (1 + distance)"

section \<open>Generation with ordered fallback\<close>

text \<open>
  Modelled from the spec: the generation orchestrator of the backend is not among the
  sources. The specification describes it as a list of providers with a common
  \<open>attempt(prompt)\<close> capability, tried in the configured order; a failed attempt advances
  to the next provider, a successful one ends the query, and the exhausted list raises
  \<open>AllProvidersFailed\<close>. The second component is the record of the attempts of the
  query, one pair of provider name and outcome for each call of \<open>attempt\<close>.
\<close>

datatype outcome = SuccessText string | SuccessStream "string list" | Failure string

record provider =
  providerName :: string
  attempt :: "string \<Rightarrow> outcome"

datatype generation_error = AllProvidersFailed

type_synonym attempts = "(string \<times> outcome) list"

fun isFailure :: "outcome \<Rightarrow> bool" where
  "isFailure (Failure reason) = True"
| "isFailure _ = False"

fun attemptProviders ::
  "provider list \<Rightarrow> string \<Rightarrow> attempts \<Rightarrow> (generation_error + outcome) \<times> attempts" where
  "attemptProviders [] prompt done = (Inl AllProvidersFailed, done)"
| "attemptProviders (p # rest) prompt done =
     (let result = attempt p prompt
      in if isFailure result
         then attemptProviders rest prompt (done @ [(providerName p, result)])
         else (Inr result, done @ [(providerName p, result)]))"

definition generate :: "provider list \<Rightarrow> string \<Rightarrow> (generation_error + outcome) \<times> attempts" where
  "generate providers prompt = attemptProviders providers prompt []"

section \<open>Splitting and the path step\<close>


lemma hd_splitOn: "hd (splitOn P s) = takeWhile (\<lambda>c. \<not> P c) s"
  by (induction s) auto





section \<open>The page pattern\<close>

lemma pageTail_digits: "pageTail t = Some n \<Longrightarrow> n \<noteq> [] \<and> list_all isDigit n"
  by (auto simp: pageTail_def Let_def list_all_iff split: if_splits dest: set_takeWhileD)

lemma indicatorSplit_None_lazyDot:
  "indicatorSplit acc t = None \<Longrightarrow> lazyDot acc' t = None"
  by (induction t arbitrary: acc acc') (auto split: option.splits)

lemma indicatorSplit_None_pageMatch:
  "indicatorSplit acc t = None \<Longrightarrow> pageMatch t = None"
proof (induction t arbitrary: acc)
  case Nil
  then show ?case by simp
next
  case (Cons c cs)
  from Cons.prems have tl: "indicatorSplit (acc @ [c]) cs = None"
    by (auto split: option.splits)
  from Cons.prems have "lazyDot [] (c # cs) = None"
    by (rule indicatorSplit_None_lazyDot)
  with Cons.IH[OF tl] show ?case by simp
qed

lemma indicatorSplit_Some_lazyDot:
  "indicatorSplit acc t = Some (b, n) \<Longrightarrow>
     \<exists>b'. b = acc @ b' \<and> (\<not> list_ex isLineTerminator b' \<longrightarrow> lazyDot acc t = Some (b, n))"
proof (induction t arbitrary: acc)
  case Nil
  then show ?case by auto
next
  case (Cons c cs)
  show ?case
  proof (cases "pageTail (c # cs)")
    case (Some m)
    with Cons.prems show ?thesis by auto
  next
    case None
    with Cons.prems have "indicatorSplit (acc @ [c]) cs = Some (b, n)" by simp
    from Cons.IH[OF this] obtain b' where
      b: "b = (acc @ [c]) @ b'" and
      l: "\<not> list_ex isLineTerminator b' \<longrightarrow> lazyDot (acc @ [c]) cs = Some (b, n)" by blast
    have "b = acc @ (c # b')" using b by simp
    moreover have "\<not> list_ex isLineTerminator (c # b') \<longrightarrow> lazyDot acc (c # cs) = Some (b, n)"
      using l None by simp
    ultimately show ?thesis by blast
  qed
qed

lemma pageMatch_of_lazyDot: "lazyDot [] t = Some r \<Longrightarrow> pageMatch t = Some r"
  by (cases t) auto

lemma pageMatch_indicatorSplit:
  assumes "case indicatorSplit [] t of
             Some (before, n) \<Rightarrow> \<not> list_ex isLineTerminator before
           | None \<Rightarrow> True"
  shows "pageMatch t = indicatorSplit [] t"
proof (cases "indicatorSplit [] t")
  case None
  then show ?thesis by (simp add: indicatorSplit_None_pageMatch)
next
  case (Some r)
  obtain b n where r: "r = (b, n)" by (cases r)
  from indicatorSplit_Some_lazyDot[of "[]" t b n] Some r assms
  have "lazyDot [] t = Some (b, n)" by auto
  then show ?thesis using Some r by (simp add: pageMatch_of_lazyDot)
qed

lemma indicatorSplit_decomp:
  "indicatorSplit acc t = Some (b, n) \<Longrightarrow>
     \<exists>pre ind. b = acc @ pre \<and> t = pre @ ind \<and> pageTail ind = Some n \<and>
       (\<forall>j < length pre. pageTail (drop j t) = None)"
proof (induction t arbitrary: acc)
  case Nil
  then show ?case by auto
next
  case (Cons c cs)
  show ?case
  proof (cases "pageTail (c # cs)")
    case (Some m)
    with Cons.prems have "b = acc @ []" "c # cs = [] @ (c # cs)" "pageTail (c # cs) = Some n"
      by auto
    then show ?thesis by (metis length_0_conv less_nat_zero_code list.size(3))
  next
    case None
    with Cons.prems have "indicatorSplit (acc @ [c]) cs = Some (b, n)" by simp
    from Cons.IH[OF this] obtain pre ind where
      p: "b = (acc @ [c]) @ pre" "cs = pre @ ind" "pageTail ind = Some n"
         "\<forall>j < length pre. pageTail (drop j cs) = None" by blast
    have "\<forall>j < length (c # pre). pageTail (drop j (c # cs)) = None"
    proof (intro allI impI)
      fix j assume "j < length (c # pre)"
      then show "pageTail (drop j (c # cs)) = None"
        using None p(4) by (cases j) auto
    qed
    moreover have "b = acc @ (c # pre)" "c # cs = (c # pre) @ ind" using p(1,2) by simp_all
    ultimately show ?thesis using p(3) by blast
  qed
qed

section \<open>Invariants of the grouping loop\<close>

lemma map_of_None_keys: "map_of g k = None \<longleftrightarrow> k \<notin> set (map fst g)"
  by (simp add: map_of_eq_None_iff)

lemma addSource_own:
  assumes "map_of g (cleanFilename s) = Some e"
  shows "addSource g s =
           Inr (case snd (parseSource s) of
                  None \<Rightarrow> g
                | Some p \<Rightarrow> AList.update (cleanFilename s) (e\<lparr>pages := setAdd p (pages e)\<rparr>) g)"
  using assms by (simp add: addSource_def getProp_def Let_def split: option.splits)

lemma addSource_new:
  assumes "map_of g (cleanFilename s) = None" "cleanFilename s \<notin> set objectPrototypeKeys"
  shows "addSource g s =
           Inr (AList.update (cleanFilename s)
                  \<lparr>pages = (case snd (parseSource s) of None \<Rightarrow> [] | Some p \<Rightarrow> setAdd p []),
                   original = s\<rparr> g)"
  using assms
  by (simp add: addSource_def getProp_def Let_def update_conv' split: option.splits)

lemma addSource_inherited:
  assumes "map_of g (cleanFilename s) = None" "cleanFilename s \<in> set objectPrototypeKeys"
  shows "addSource g s = (case snd (parseSource s) of None \<Rightarrow> Inr g | Some p \<Rightarrow> Inl TypeError)"
  using assms by (simp add: addSource_def getProp_def Let_def split: option.splits)

lemma map_of_Some_key: "map_of g k = Some e \<Longrightarrow> k \<in> set (map fst g)"
  by (metis map_of_None_keys option.distinct(1))

lemma addSource_keys:
  assumes "addSource g s = Inr g'" "ownOk g"
  shows "map fst g' = addKey (map fst g) (cleanFilename s)"
proof (cases "map_of g (cleanFilename s)")
  case (Some e)
  have k: "cleanFilename s \<in> fst ` set g" using map_of_Some_key[OF Some] by simp
  have "map fst g' = map fst g"
  proof (cases "snd (parseSource s)")
    case None
    then show ?thesis using assms(1) unfolding addSource_own[OF Some] by simp
  next
    case (Some p)
    then have "g' = AList.update (cleanFilename s) (e\<lparr>pages := setAdd p (pages e)\<rparr>) g"
      using assms(1) unfolding addSource_own[OF \<open>map_of g (cleanFilename s) = Some e\<close>]
      by simp
    then show ?thesis using k by (simp add: update_keys)
  qed
  then show ?thesis using k by (simp add: addKey_def)
next
  case None
  have k: "cleanFilename s \<notin> fst ` set g" using None by (simp add: map_of_eq_None_iff)
  show ?thesis
  proof (cases "cleanFilename s \<in> set objectPrototypeKeys")
    case True
    have "g' = g"
      using assms(1) unfolding addSource_inherited[OF None True]
      by (cases "snd (parseSource s)") simp_all
    then show ?thesis using True by (simp add: addKey_def)
  next
    case False
    have "g' = AList.update (cleanFilename s)
                  \<lparr>pages = (case snd (parseSource s) of None \<Rightarrow> [] | Some p \<Rightarrow> setAdd p []),
                   original = s\<rparr> g"
      using assms(1) unfolding addSource_new[OF None False] by simp
    then have "map fst g' = map fst g @ [cleanFilename s]"
      using k by (simp add: update_keys)
    then show ?thesis using k False by (simp add: addKey_def)
  qed
qed

lemma addKey_ownOk:
  "(\<forall>k \<in> set ks. k \<notin> set objectPrototypeKeys) \<Longrightarrow>
   (\<forall>k \<in> set (addKey ks x). k \<notin> set objectPrototypeKeys)"
  by (auto simp: addKey_def)

lemma addSource_ownOk:
  assumes "addSource g s = Inr g'" "ownOk g"
  shows "ownOk g'"
  unfolding ownOk_def addSource_keys[OF assms]
  using assms(2)[unfolded ownOk_def] by (rule addKey_ownOk)

lemma addSource_pages:
  assumes "addSource g s = Inr g'"
  shows "pagesOf g' k =
           (if k = cleanFilename s
            then (case snd (parseSource s) of Some p \<Rightarrow> setAdd p (pagesOf g k) | None \<Rightarrow> pagesOf g k)
            else pagesOf g k)"
proof (cases "map_of g (cleanFilename s)")
  case (Some e)
  show ?thesis
    using assms Some unfolding addSource_own[OF Some] pagesOf_def
    by (auto simp: update_conv' split: option.splits)
next
  case None
  show ?thesis
  proof (cases "cleanFilename s \<in> set objectPrototypeKeys")
    case True
    show ?thesis
      using assms None unfolding addSource_inherited[OF None True] pagesOf_def
      by (auto split: option.splits)
  next
    case False
    show ?thesis
      using assms None unfolding addSource_new[OF None False] pagesOf_def
      by (auto simp: update_conv' split: option.splits)
  qed
qed

lemma addSource_Inl_iff:
  assumes "ownOk g"
  shows "(\<exists>e. addSource g s = Inl e) \<longleftrightarrow>
           cleanFilename s \<in> set objectPrototypeKeys \<and> snd (parseSource s) \<noteq> None"
proof (cases "map_of g (cleanFilename s)")
  case (Some e)
  have "cleanFilename s \<in> set (map fst g)" using Some by (rule map_of_Some_key)
  then have "cleanFilename s \<notin> set objectPrototypeKeys" using assms by (auto simp: ownOk_def)
  then show ?thesis unfolding addSource_own[OF Some] by simp
next
  case None
  show ?thesis
  proof (cases "cleanFilename s \<in> set objectPrototypeKeys")
    case True
    show ?thesis using True unfolding addSource_inherited[OF None True]
      by (auto split: option.splits)
  next
    case False
    show ?thesis using False unfolding addSource_new[OF None False] by simp
  qed
qed

lemma forEach_keys:
  "forEachSource g srcs = Inr g' \<Longrightarrow> ownOk g \<Longrightarrow>
     map fst g' = foldl addKey (map fst g) (map cleanFilename srcs) \<and> ownOk g'"
proof (induction srcs arbitrary: g)
  case Nil
  then show ?case by simp
next
  case (Cons s ss)
  then obtain g1 where g1: "addSource g s = Inr g1" "forEachSource g1 ss = Inr g'"
    by (auto split: sum.splits)
  from addSource_keys[OF g1(1) Cons.prems(2)] addSource_ownOk[OF g1(1) Cons.prems(2)]
    Cons.IH[OF g1(2)]
  show ?case by simp
qed

lemma forEach_pages:
  "forEachSource g srcs = Inr g' \<Longrightarrow> ownOk g \<Longrightarrow>
     pagesOf g' k = foldl (\<lambda>ps p. setAdd p ps) (pagesOf g k) (pagesFor k srcs)"
proof (induction srcs arbitrary: g)
  case Nil
  then show ?case by (simp add: pagesFor_def)
next
  case (Cons s ss)
  then obtain g1 where g1: "addSource g s = Inr g1" "forEachSource g1 ss = Inr g'"
    by (auto split: sum.splits)
  have ok1: "ownOk g1" by (rule addSource_ownOk[OF g1(1) Cons.prems(2)])
  from Cons.IH[OF g1(2) ok1] addSource_pages[OF g1(1), of k]
  show ?case
    by (auto simp: pagesFor_def split: option.splits)
qed

lemma forEach_Inr_iff:
  "ownOk g \<Longrightarrow>
     (\<exists>g'. forEachSource g srcs = Inr g') \<longleftrightarrow>
       (\<forall>s \<in> set srcs. cleanFilename s \<in> set objectPrototypeKeys \<longrightarrow> snd (parseSource s) = None)"
proof (induction srcs arbitrary: g)
  case Nil
  then show ?case by simp
next
  case (Cons s ss)
  show ?case
  proof (cases "addSource g s")
    case (Inl e)
    with addSource_Inl_iff[OF Cons.prems, of s] show ?thesis by auto
  next
    case (Inr g1)
    have ok1: "ownOk g1" by (rule addSource_ownOk[OF Inr Cons.prems])
    from addSource_Inl_iff[OF Cons.prems, of s] Inr
    have "\<not> (cleanFilename s \<in> set objectPrototypeKeys \<and> snd (parseSource s) \<noteq> None)" by auto
    with Cons.IH[OF ok1] Inr show ?thesis by auto
  qed
qed

lemma foldl_setAdd: "foldl (\<lambda>ps p. setAdd p ps) [] xs = firstAppearance xs"
  by (simp add: firstAppearance_def setAdd_def)

lemma foldl_addKey:
  "\<forall>k \<in> set xs. k \<notin> set objectPrototypeKeys \<Longrightarrow>
   foldl addKey ks xs = foldl (\<lambda>seen x. if x \<in> set seen then seen else seen @ [x]) ks xs"
  by (induction xs arbitrary: ks) (auto simp: addKey_def)

lemma foldl_addKey_filter:
  "foldl addKey ks xs = foldl (\<lambda>seen x. if x \<in> set seen then seen else seen @ [x]) ks
      (filter (\<lambda>k. k \<notin> set objectPrototypeKeys) xs)"
  by (induction xs arbitrary: ks) (auto simp: addKey_def)

lemma set_foldl_seen:
  "set (foldl (\<lambda>seen x. if x \<in> set seen then seen else seen @ [x]) ks xs) = set ks \<union> set xs"
  by (induction xs arbitrary: ks) auto

lemma distinct_foldl_seen:
  "distinct ks \<Longrightarrow> distinct (foldl (\<lambda>seen x. if x \<in> set seen then seen else seen @ [x]) ks xs)"
  by (induction xs arbitrary: ks) auto

lemma set_firstAppearance: "set (firstAppearance xs) = set xs"
  by (simp add: firstAppearance_def set_foldl_seen)

lemma distinct_firstAppearance: "distinct (firstAppearance xs)"
  by (simp add: firstAppearance_def distinct_foldl_seen)

lemma length_foldl_seen:
  "length (foldl (\<lambda>seen x. if x \<in> set seen then seen else seen @ [x]) ks xs) \<le> length ks + length xs"
proof (induction xs arbitrary: ks)
  case Nil
  then show ?case by simp
next
  case (Cons a xs)
  show ?case
  proof (cases "a \<in> set ks")
    case True
    then show ?thesis using Cons.IH[of ks] by simp
  next
    case False
    then show ?thesis using Cons.IH[of "ks @ [a]"] by simp
  qed
qed

section \<open>Evaluation on concrete citation strings\<close>

lemmas eval_defs =
  js_def cleanSource_def trim_def stripSourcePrefix_def stripCloseBracket_def pageTail_def
  optChar_def matchesPage_def isSpace_def isWhiteSpace_def isLineTerminator_def isDigit_def
  comma_def lparen_def rparen_def rbracket_def

lemma parseSource_no_match:
  assumes "cleanSource raw = t" "indicatorSplit [] t = None" "comma \<notin> set t"
  shows "parseSource raw = (t, None)"
  using assms indicatorSplit_None_pageMatch[of "[]" t]
  by (simp add: parseSource_def)

lemma cleanFilename_plain:
  assumes "parseSource raw = (f, page)" "\<not> list_ex isSep f"
  shows "cleanFilename raw = f"
  using assms by (simp add: cleanFilename_def stripPath_def)

lemma parse_report_3:
  "parseSource (js ''[Source: report.pdf, Page 3]'') = (js ''report.pdf'', Some (js ''3''))"
  by (simp add: parseSource_def eval_defs)

lemma parse_report_1:
  "parseSource (js ''[Source: report.pdf, Page 1]'') = (js ''report.pdf'', Some (js ''1''))"
  by (simp add: parseSource_def eval_defs)

lemma parse_notes:
  "parseSource (js ''[Source: notes.txt]'') = (js ''notes.txt'', None)"
  by (rule parseSource_no_match) (simp_all add: eval_defs)

lemma clean_report_3: "cleanFilename (js ''[Source: report.pdf, Page 3]'') = js ''report.pdf''"
  by (rule cleanFilename_plain[OF parse_report_3]) (simp add: js_def isSep_def)

lemma clean_report_1: "cleanFilename (js ''[Source: report.pdf, Page 1]'') = js ''report.pdf''"
  by (rule cleanFilename_plain[OF parse_report_1]) (simp add: js_def isSep_def)

lemma clean_notes: "cleanFilename (js ''[Source: notes.txt]'') = js ''notes.txt''"
  by (rule cleanFilename_plain[OF parse_notes]) (simp add: js_def isSep_def)

lemma report_not_inherited: "js ''report.pdf'' \<notin> set objectPrototypeKeys"
  by (simp add: objectPrototypeKeys_def js_def)

lemma notes_not_inherited: "js ''notes.txt'' \<notin> set objectPrototypeKeys"
  by (simp add: objectPrototypeKeys_def js_def)

lemma notes_neq_report: "js ''notes.txt'' \<noteq> js ''report.pdf''"
  by (simp add: js_def)

lemma report_not_index: "\<not> isArrayIndex (js ''report.pdf'')"
  by (simp add: isArrayIndex_def js_def isDigit_def)

lemma notes_not_index: "\<not> isArrayIndex (js ''notes.txt'')"
  by (simp add: isArrayIndex_def js_def isDigit_def)

lemma numberOf_1: "numberOf (js ''1'') = 1"
  by (simp add: numberOf_def js_def)

lemma numberOf_3: "numberOf (js ''3'') = 3"
  by (simp add: numberOf_def js_def)

lemma grouped_example:
  "groupedSources
     [js ''[Source: report.pdf, Page 3]'', js ''[Source: report.pdf, Page 1]'',
      js ''[Source: notes.txt]'']
   = Inr [(js ''report.pdf'',
            \<lparr>pages = [js ''3'', js ''1''], original = js ''[Source: report.pdf, Page 3]''\<rparr>),
          (js ''notes.txt'', \<lparr>pages = [], original = js ''[Source: notes.txt]''\<rparr>)]"
  unfolding groupedSources_def forEachSource.simps addSource_def Let_def
    parse_report_3 parse_report_1 parse_notes clean_report_3 clean_report_1 clean_notes getProp_def
  using report_not_inherited notes_not_inherited notes_neq_report
  apply (simp add: setAdd_def)
  apply (simp add: js_def)
  done

text \<open>
  C1. The three raw strings of the specification's example give two cards: first
  \<open>report.pdf\<close> with the pages 1 and 3 in this order, then \<open>notes.txt\<close> with no page; the
  count shown is 2.
\<close>

theorem example_grouping:
  "sourcesGrid
     [js ''[Source: report.pdf, Page 3]'', js ''[Source: report.pdf, Page 1]'',
      js ''[Source: notes.txt]'']
   = Inr (2, [(js ''report.pdf'', [js ''1'', js ''3'']), (js ''notes.txt'', [])]) \<and>
   map numberOf [js ''1'', js ''3''] = [1, 3]"
  unfolding sourcesGrid_def grouped_example
  using notes_neq_report notes_neq_report[symmetric]
  by (simp add: uniqueFileCount_def objectKeys_def cards_def sortedPages_def
        report_not_index notes_not_index numberOf_1 numberOf_3)

section \<open>The staged parse\<close>

lemma cleanSource_report_3:
  "cleanSource (js ''[Source: report.pdf, Page 3]'') = js ''report.pdf, Page 3''"
  by (simp add: eval_defs)

lemma indicatorSplit_report_3:
  "indicatorSplit [] (js ''report.pdf, Page 3'') = Some (js ''report.pdf'', js ''3'')"
  by (simp add: eval_defs)

lemma parse_newline:
  "parseSource (js ''[Source: a'' @ 0x0A # js ''b, Page 3]'') = (js ''b'', Some (js ''3''))"
  by (simp add: parseSource_def eval_defs)

lemma staged_newline:
  "stagedParse (js ''[Source: a'' @ 0x0A # js ''b, Page 3]'') = (js ''a'' @ 0x0A # js ''b'', Some (js ''3''))"
  by (simp add: stagedParse_def eval_defs)

lemma parse_spaced_comma:
  "parseSource (js ''[Source: a , b]'') = (js ''a'', None)"
  by (simp add: parseSource_def eval_defs hd_splitOn)

lemma staged_spaced_comma:
  "stagedParse (js ''[Source: a , b]'') = (js ''a '', None)"
  by (simp add: stagedParse_def eval_defs)

text \<open>
  C2 (as stated, refuted). The claim reads the filename of a matching string as the whole
  text before the indicator and, in the comma stage, as the text before the first comma.
  The code differs on a string with a line feed before the indicator, where the filename
  is only the text after the line feed, and on a string with white space before the first
  comma, which the code trims.
\<close>

theorem staged_parse_counterexample:
  "parseSource (js ''[Source: a'' @ 0x0A # js ''b, Page 3]'') = (js ''b'', Some (js ''3'')) \<and>
   stagedParse (js ''[Source: a'' @ 0x0A # js ''b, Page 3]'')
     = (js ''a'' @ 0x0A # js ''b'', Some (js ''3'')) \<and>
   parseSource (js ''[Source: a'' @ 0x0A # js ''b, Page 3]'')
     \<noteq> stagedParse (js ''[Source: a'' @ 0x0A # js ''b, Page 3]'') \<and>
   parseSource (js ''[Source: a , b]'') = (js ''a'', None) \<and>
   stagedParse (js ''[Source: a , b]'') = (js ''a '', None) \<and>
   parseSource (js ''[Source: a , b]'') \<noteq> stagedParse (js ''[Source: a , b]'')"
  unfolding parse_newline staged_newline parse_spaced_comma staged_spaced_comma
  by (simp add: js_def)

text \<open>
  C2 (amended). For every raw string in which no line terminator stands before the page
  indicator: the wrapper is stripped first; if some rest of the cleaned string is a page
  indicator, the trimmed text before the first such rest is the filename and the digits of
  the indicator are the page; otherwise, if the cleaned string has a comma, the trimmed
  text before the first comma is the filename and there is no page; otherwise the cleaned
  string is the filename and there is no page.
\<close>

theorem parseSource_staged:
  assumes "case indicatorSplit [] (cleanSource raw) of
             Some (before, n) \<Rightarrow> \<not> list_ex isLineTerminator before
           | None \<Rightarrow> True"
  shows "parseSource raw =
           (case indicatorSplit [] (cleanSource raw) of
              Some (before, n) \<Rightarrow> (trim before, Some n)
            | None \<Rightarrow>
                if comma \<in> set (cleanSource raw)
                then (trim (takeWhile (\<lambda>c. c \<noteq> comma) (cleanSource raw)), None)
                else (cleanSource raw, None)) \<and>
         (\<forall>before n. indicatorSplit [] (cleanSource raw) = Some (before, n) \<longrightarrow>
            (\<exists>ind. cleanSource raw = before @ ind \<and> pageTail ind = Some n \<and>
                   n \<noteq> [] \<and> list_all isDigit n \<and>
                   (\<forall>j < length before. pageTail (drop j (cleanSource raw)) = None)))"
proof (intro conjI allI impI)
  have pm: "pageMatch (cleanSource raw) = indicatorSplit [] (cleanSource raw)"
    using assms by (rule pageMatch_indicatorSplit)
  have tw: "takeWhile (\<lambda>c. \<not> c = comma) (cleanSource raw)
              = takeWhile (\<lambda>c. c \<noteq> comma) (cleanSource raw)"
    by simp
  show "parseSource raw =
           (case indicatorSplit [] (cleanSource raw) of
              Some (before, n) \<Rightarrow> (trim before, Some n)
            | None \<Rightarrow>
                if comma \<in> set (cleanSource raw)
                then (trim (takeWhile (\<lambda>c. c \<noteq> comma) (cleanSource raw)), None)
                else (cleanSource raw, None))"
    unfolding parseSource_def Let_def pm hd_splitOn
    by (simp split: option.splits)
next
  fix before n
  assume "indicatorSplit [] (cleanSource raw) = Some (before, n)"
  from indicatorSplit_decomp[OF this] obtain pre ind where
    p: "before = [] @ pre" "cleanSource raw = pre @ ind" "pageTail ind = Some n"
       "\<forall>j < length pre. pageTail (drop j (cleanSource raw)) = None"
    by blast
  from pageTail_digits[OF p(3)] p
  show "\<exists>ind. cleanSource raw = before @ ind \<and> pageTail ind = Some n \<and>
              n \<noteq> [] \<and> list_all isDigit n \<and>
              (\<forall>j < length before. pageTail (drop j (cleanSource raw)) = None)"
    by auto
qed

theorem parseSource_staged_witness:
  "(case indicatorSplit [] (cleanSource (js ''[Source: report.pdf, Page 3]'')) of
      Some (before, n) \<Rightarrow> \<not> list_ex isLineTerminator before
    | None \<Rightarrow> True) \<and>
   parseSource (js ''[Source: report.pdf, Page 3]'') = (trim (js ''report.pdf''), Some (js ''3''))"
proof -
  have h: "case indicatorSplit [] (cleanSource (js ''[Source: report.pdf, Page 3]'')) of
             Some (before, n) \<Rightarrow> \<not> list_ex isLineTerminator before
           | None \<Rightarrow> True"
    unfolding cleanSource_report_3 indicatorSplit_report_3
    by (simp add: js_def isLineTerminator_def)
  from parseSource_staged[OF h]
  have "parseSource (js ''[Source: report.pdf, Page 3]'') =
          (case indicatorSplit [] (cleanSource (js ''[Source: report.pdf, Page 3]'')) of
              Some (before, n) \<Rightarrow> (trim before, Some n)
            | None \<Rightarrow>
                if comma \<in> set (cleanSource (js ''[Source: report.pdf, Page 3]''))
                then (trim (takeWhile (\<lambda>c. c \<noteq> comma) (cleanSource (js ''[Source: report.pdf, Page 3]''))), None)
                else (cleanSource (js ''[Source: report.pdf, Page 3]''), None))"
    by (rule conjunct1)
  then have "parseSource (js ''[Source: report.pdf, Page 3]'') = (trim (js ''report.pdf''), Some (js ''3''))"
    unfolding cleanSource_report_3 indicatorSplit_report_3 by simp
  with h show ?thesis by simp
qed

section \<open>Keys of the grouped output\<close>

lemma set_objectKeys: "set (objectKeys g) = fst ` set g"
  by (auto simp: objectKeys_def)

lemma length_objectKeys: "length (objectKeys g) = length g"
  using sum_length_filter_compl[of isArrayIndex "map fst g"]
  by (simp add: objectKeys_def)

lemma distinct_objectKeys: "distinct (map fst g) \<Longrightarrow> distinct (objectKeys g)"
  by (auto simp: objectKeys_def)

lemma set_foldl_addKey:
  "set (foldl addKey ks xs) = set ks \<union> {x \<in> set xs. x \<notin> set objectPrototypeKeys}"
  unfolding foldl_addKey_filter set_foldl_seen by auto

lemma ownOk_Nil: "ownOk []"
  by (simp add: ownOk_def)

lemma groupedSources_keys:
  assumes "groupedSources sources = Inr g"
  shows "map fst g = foldl addKey [] (map cleanFilename sources)"
  using forEach_keys[OF assms[unfolded groupedSources_def] ownOk_Nil] by simp

lemma groupedSources_key_set:
  assumes "groupedSources sources = Inr g"
  shows "set (objectKeys g) = {k \<in> cleanFilename ` set sources. k \<notin> set objectPrototypeKeys}"
proof -
  have "set (objectKeys g) = set (map fst g)"
    by (simp add: set_objectKeys)
  also have "\<dots> = set (foldl addKey [] (map cleanFilename sources))"
    by (simp only: groupedSources_keys[OF assms])
  also have "\<dots> = {k \<in> set (map cleanFilename sources). k \<notin> set objectPrototypeKeys}"
    by (simp add: set_foldl_addKey)
  finally show ?thesis by simp
qed

section \<open>The grouped output as a function of the input\<close>

lemma groupedSources_pages:
  assumes "groupedSources sources = Inr g"
  shows "pagesOf g k = firstAppearance (pagesFor k sources)"
  using forEach_pages[OF assms[unfolded groupedSources_def] ownOk_Nil, of k]
  by (simp add: pagesOf_def foldl_setAdd)

lemma groupedSources_total:
  assumes "\<forall>s \<in> set sources. cleanFilename s \<notin> set objectPrototypeKeys"
  shows "\<exists>g. groupedSources sources = Inr g"
  unfolding groupedSources_def
  using forEach_Inr_iff[OF ownOk_Nil, of sources] assms by blast

lemma groupedSources_distinct:
  assumes "groupedSources sources = Inr g"
  shows "distinct (map fst g)"
  unfolding groupedSources_keys[OF assms] foldl_addKey_filter
  by (rule distinct_foldl_seen) simp

lemma groupedSources_firstAppearance:
  assumes "groupedSources sources = Inr g"
    and "\<forall>s \<in> set sources. cleanFilename s \<notin> set objectPrototypeKeys"
  shows "map fst g = firstAppearance (map cleanFilename sources)"
proof -
  have "\<forall>k \<in> set (map cleanFilename sources). k \<notin> set objectPrototypeKeys"
    using assms(2) by simp
  from foldl_addKey[OF this, of "[]"] show ?thesis
    unfolding groupedSources_keys[OF assms(1)] firstAppearance_def .
qed

lemma cards_pagesOf:
  "cards g = map (\<lambda>k. (k, sort_key numberOf (pagesOf g k))) (objectKeys g)"
  unfolding cards_def pagesOf_def sortedPages_def
  by (rule map_cong) (auto split: option.splits)

lemma set_pagesFor:
  "set (pagesFor k sources) =
     {p. \<exists>s \<in> set sources. cleanFilename s = k \<and> snd (parseSource s) = Some p}"
proof (induction sources)
  case Nil
  then show ?case by (simp add: pagesFor_def)
next
  case (Cons s ss)
  have "set (pagesFor k (s # ss)) =
          (if cleanFilename s = k then set_option (snd (parseSource s)) else {}) \<union>
          set (pagesFor k ss)"
    by (auto simp: pagesFor_def split: option.splits)
  then show ?case unfolding Cons.IH by (auto split: if_splits)
qed

lemma uniqueFileCount_le:
  assumes "groupedSources sources = Inr g"
  shows "uniqueFileCount g \<le> length sources"
proof -
  have "length (map fst g) \<le> length ([] :: jsstring list) + length (map cleanFilename sources)"
    unfolding groupedSources_keys[OF assms] foldl_addKey_filter
    by (rule le_trans[OF length_foldl_seen]) simp
  then show ?thesis by (simp add: uniqueFileCount_def length_objectKeys)
qed

section \<open>The path step and the keys\<close>










section \<open>Merged page lists\<close>

lemma parse_a_1: "parseSource (js ''[Source: a, Page 1]'') = (js ''a'', Some (js ''1''))"
  by (simp add: parseSource_def eval_defs)

lemma parse_a_01: "parseSource (js ''[Source: a, Page 01]'') = (js ''a'', Some (js ''01''))"
  by (simp add: parseSource_def eval_defs)

lemma clean_a_1: "cleanFilename (js ''[Source: a, Page 1]'') = js ''a''"
  by (rule cleanFilename_plain[OF parse_a_1]) (simp add: js_def isSep_def)

lemma clean_a_01: "cleanFilename (js ''[Source: a, Page 01]'') = js ''a''"
  by (rule cleanFilename_plain[OF parse_a_01]) (simp add: js_def isSep_def)

lemma numberOf_01: "numberOf (js ''01'') = 1"
  by (simp add: numberOf_def js_def)

lemma a_not_index: "\<not> isArrayIndex (js ''a'')"
  by (simp add: isArrayIndex_def js_def isDigit_def)

lemma grouped_leading_zero:
  "groupedSources [js ''[Source: a, Page 1]'', js ''[Source: a, Page 01]'']
   = Inr [(js ''a'', \<lparr>pages = [js ''1'', js ''01''], original = js ''[Source: a, Page 1]''\<rparr>)]"
  unfolding groupedSources_def forEachSource.simps addSource_def Let_def
    parse_a_1 parse_a_01 clean_a_1 clean_a_01 getProp_def
  by (simp add: setAdd_def objectPrototypeKeys_def js_def)

text \<open>
  C4 (as stated, refuted). The pages are kept as strings and compared as strings, so two
  spellings of one number stay both in the page list: the pages \<open>1\<close> and \<open>01\<close> of one
  file give the list \<open>1, 01\<close>, which repeats the page number 1.
\<close>

theorem page_list_counterexample:
  "sourcesGrid [js ''[Source: a, Page 1]'', js ''[Source: a, Page 01]'']
     = Inr (1, [(js ''a'', [js ''1'', js ''01''])]) \<and>
   map numberOf [js ''1'', js ''01''] = [1, 1] \<and>
   \<not> distinct (map numberOf [js ''1'', js ''01''])"
  unfolding sourcesGrid_def grouped_leading_zero
  by (simp add: uniqueFileCount_def objectKeys_def cards_def sortedPages_def
        numberOf_1 numberOf_01 a_not_index)

text \<open>
  C4 (amended). For every input in which no cleaned filename is the name of an inherited
  property and every page is at most \<open>2^53\<close>, the grouping returns; there is exactly one
  card for each cleaned filename of the input; and the page list of the card of a filename
  holds exactly the page strings of the raw strings with that cleaned filename, each
  string once, in non-decreasing order of their numeric values.
\<close>

theorem grouping_merges_pages:
  assumes "\<forall>s \<in> set sources. cleanFilename s \<notin> set objectPrototypeKeys"
    and "\<forall>s \<in> set sources. \<forall>p. snd (parseSource s) = Some p \<longrightarrow> numberOf p \<le> 2 ^ 53"
  shows "\<exists>g. groupedSources sources = Inr g \<and>
           map fst (cards g) = objectKeys g \<and>
           distinct (objectKeys g) \<and>
           set (objectKeys g) = cleanFilename ` set sources \<and>
           (\<forall>(k, ps) \<in> set (cards g).
              set ps = {p. \<exists>s \<in> set sources. cleanFilename s = k \<and> snd (parseSource s) = Some p} \<and>
              distinct ps \<and> sorted (map numberOf ps))"
proof -
  from groupedSources_total[OF assms(1)] obtain g where g: "groupedSources sources = Inr g"
    by blast
  have keys: "map fst (cards g) = objectKeys g"
    unfolding cards_pagesOf by (simp add: comp_def)
  have dist: "distinct (objectKeys g)"
    using groupedSources_distinct[OF g] by (rule distinct_objectKeys)
  have kset: "set (objectKeys g) = cleanFilename ` set sources"
    unfolding groupedSources_key_set[OF g] using assms(1) by auto
  have pg: "\<forall>(k, ps) \<in> set (cards g).
              set ps = {p. \<exists>s \<in> set sources. cleanFilename s = k \<and> snd (parseSource s) = Some p} \<and>
              distinct ps \<and> sorted (map numberOf ps)"
  proof (clarify)
    fix k ps
    assume "(k, ps) \<in> set (cards g)"
    then have ps: "ps = sort_key numberOf (firstAppearance (pagesFor k sources))"
      unfolding cards_pagesOf groupedSources_pages[OF g] by auto
    show "set ps = {p. \<exists>s \<in> set sources. cleanFilename s = k \<and> snd (parseSource s) = Some p} \<and>
          distinct ps \<and> sorted (map numberOf ps)"
      unfolding ps
      by (simp add: set_firstAppearance set_pagesFor distinct_firstAppearance)
  qed
  from g keys dist kset pg show ?thesis by blast
qed

theorem grouping_merges_pages_witness:
  "cleanFilename (js ''[Source: report.pdf, Page 3]'') \<notin> set objectPrototypeKeys \<and>
   cleanFilename (js ''[Source: report.pdf, Page 1]'') \<notin> set objectPrototypeKeys \<and>
   cleanFilename (js ''[Source: notes.txt]'') \<notin> set objectPrototypeKeys \<and>
   snd (parseSource (js ''[Source: report.pdf, Page 3]'')) = Some (js ''3'') \<and>
   numberOf (js ''3'') \<le> 2 ^ 53 \<and>
   snd (parseSource (js ''[Source: report.pdf, Page 1]'')) = Some (js ''1'') \<and>
   numberOf (js ''1'') \<le> 2 ^ 53 \<and>
   snd (parseSource (js ''[Source: notes.txt]'')) = None \<and>
   (\<exists>g. groupedSources [js ''[Source: report.pdf, Page 3]'', js ''[Source: report.pdf, Page 1]'',
               js ''[Source: notes.txt]''] = Inr g \<and>
        map fst (cards g) = objectKeys g \<and>
        distinct (objectKeys g) \<and>
        set (objectKeys g)
          = cleanFilename ` set [js ''[Source: report.pdf, Page 3]'',
                                 js ''[Source: report.pdf, Page 1]'', js ''[Source: notes.txt]''] \<and>
        (\<forall>(k, ps) \<in> set (cards g).
           set ps = {p. \<exists>s \<in> set [js ''[Source: report.pdf, Page 3]'',
                                     js ''[Source: report.pdf, Page 1]'',
                                     js ''[Source: notes.txt]''].
                         cleanFilename s = k \<and> snd (parseSource s) = Some p} \<and>
           distinct ps \<and> sorted (map numberOf ps)))"
proof -
  let ?w = "[js ''[Source: report.pdf, Page 3]'', js ''[Source: report.pdf, Page 1]'',
             js ''[Source: notes.txt]'']"
  have c: "cleanFilename (js ''[Source: report.pdf, Page 3]'') \<notin> set objectPrototypeKeys"
    "cleanFilename (js ''[Source: report.pdf, Page 1]'') \<notin> set objectPrototypeKeys"
    "cleanFilename (js ''[Source: notes.txt]'') \<notin> set objectPrototypeKeys"
    by (simp_all add: clean_report_3 clean_report_1 clean_notes report_not_inherited
          notes_not_inherited)
  have n: "snd (parseSource (js ''[Source: report.pdf, Page 3]'')) = Some (js ''3'')"
    "numberOf (js ''3'') \<le> 2 ^ 53"
    "snd (parseSource (js ''[Source: report.pdf, Page 1]'')) = Some (js ''1'')"
    "numberOf (js ''1'') \<le> 2 ^ 53"
    "snd (parseSource (js ''[Source: notes.txt]'')) = None"
    by (simp_all add: parse_report_3 parse_report_1 parse_notes numberOf_1 numberOf_3)
  have h1: "\<forall>s \<in> set ?w. cleanFilename s \<notin> set objectPrototypeKeys"
    using c by simp
  have h2: "\<forall>s \<in> set ?w. \<forall>p. snd (parseSource s) = Some p \<longrightarrow> numberOf p \<le> 2 ^ 53"
    using n by simp
  show ?thesis
    using c n grouping_merges_pages[OF h1 h2] by (intro conjI)
qed

section \<open>Order of the cards\<close>

lemma parse_2024: "parseSource (js ''[Source: 2024]'') = (js ''2024'', None)"
  by (rule parseSource_no_match) (simp_all add: eval_defs)

lemma clean_2024: "cleanFilename (js ''[Source: 2024]'') = js ''2024''"
  by (rule cleanFilename_plain[OF parse_2024]) (simp add: js_def isSep_def)

lemma numberOf_2024: "numberOf (js ''2024'') = 2024"
  by (simp add: numberOf_def js_def)

lemma index_2024: "isArrayIndex (js ''2024'')"
  unfolding isArrayIndex_def numberOf_2024 by (simp add: js_def isDigit_def)

lemma grouped_digits:
  "groupedSources [js ''[Source: notes.txt]'', js ''[Source: 2024]'']
   = Inr [(js ''notes.txt'', \<lparr>pages = [], original = js ''[Source: notes.txt]''\<rparr>),
          (js ''2024'', \<lparr>pages = [], original = js ''[Source: 2024]''\<rparr>)]"
  unfolding groupedSources_def forEachSource.simps addSource_def Let_def
    parse_notes parse_2024 clean_notes clean_2024 getProp_def
  by (simp add: objectPrototypeKeys_def js_def)

text \<open>
  C5 (as stated, refuted). \<open>Object.keys\<close> lists the property names that are array indices
  before all other names: with \<open>notes.txt\<close> cited first and a file named \<open>2024\<close> cited
  second, the card of \<open>2024\<close> comes first.
\<close>

theorem digit_name_order_counterexample:
  "sourcesGrid [js ''[Source: notes.txt]'', js ''[Source: 2024]'']
     = Inr (2, [(js ''2024'', []), (js ''notes.txt'', [])]) \<and>
   firstAppearance (map cleanFilename [js ''[Source: notes.txt]'', js ''[Source: 2024]''])
     = [js ''notes.txt'', js ''2024'']"
proof -
  have ne: "js ''notes.txt'' \<noteq> js ''2024''" "js ''2024'' \<noteq> js ''notes.txt''"
    by (simp_all add: js_def)
  have "sourcesGrid [js ''[Source: notes.txt]'', js ''[Source: 2024]'']
     = Inr (2, [(js ''2024'', []), (js ''notes.txt'', [])])"
    unfolding sourcesGrid_def grouped_digits
    using ne
    by (simp add: uniqueFileCount_def objectKeys_def cards_def sortedPages_def
          index_2024 notes_not_index)
  moreover have "firstAppearance (map cleanFilename [js ''[Source: notes.txt]'', js ''[Source: 2024]''])
     = [js ''notes.txt'', js ''2024'']"
    using ne by (simp add: firstAppearance_def clean_notes clean_2024)
  ultimately show ?thesis by simp
qed

text \<open>
  C5 (amended). For every input in which no cleaned filename is the name of an inherited
  property, the grouping returns and the cards are shown in this order: first the cleaned
  filenames that are array indices (the canonical decimal form of an integer below
  \<open>2^32 - 1\<close>), in ascending numeric order, then all other cleaned filenames in the order
  of their first appearance in the input. When no cleaned filename is an array index, the
  order is the order of first appearance.
\<close>

theorem cards_order:
  assumes "\<forall>s \<in> set sources. cleanFilename s \<notin> set objectPrototypeKeys"
  shows "\<exists>g. groupedSources sources = Inr g \<and>
           map fst (cards g) = objectKeys g \<and>
           objectKeys g =
             sort_key numberOf
               (filter isArrayIndex (firstAppearance (map cleanFilename sources))) @
             filter (\<lambda>k. \<not> isArrayIndex k) (firstAppearance (map cleanFilename sources)) \<and>
           ((\<forall>s \<in> set sources. \<not> isArrayIndex (cleanFilename s)) \<longrightarrow>
              objectKeys g = firstAppearance (map cleanFilename sources))"
proof -
  from groupedSources_total[OF assms] obtain g where g: "groupedSources sources = Inr g"
    by blast
  have keys: "map fst (cards g) = objectKeys g"
    unfolding cards_pagesOf by (simp add: comp_def)
  have fa: "map fst g = firstAppearance (map cleanFilename sources)"
    using g assms by (rule groupedSources_firstAppearance)
  have ord: "objectKeys g =
             sort_key numberOf
               (filter isArrayIndex (firstAppearance (map cleanFilename sources))) @
             filter (\<lambda>k. \<not> isArrayIndex k) (firstAppearance (map cleanFilename sources))"
    unfolding objectKeys_def fa ..
  have plain: "(\<forall>s \<in> set sources. \<not> isArrayIndex (cleanFilename s)) \<longrightarrow>
              objectKeys g = firstAppearance (map cleanFilename sources)"
  proof
    assume "\<forall>s \<in> set sources. \<not> isArrayIndex (cleanFilename s)"
    then have "\<forall>k \<in> set (firstAppearance (map cleanFilename sources)). \<not> isArrayIndex k"
      by (simp add: set_firstAppearance)
    then have "filter isArrayIndex (firstAppearance (map cleanFilename sources)) = []"
      and "filter (\<lambda>k. \<not> isArrayIndex k) (firstAppearance (map cleanFilename sources))
             = firstAppearance (map cleanFilename sources)"
      by (simp_all add: filter_empty_conv filter_id_conv)
    then show "objectKeys g = firstAppearance (map cleanFilename sources)"
      unfolding ord by simp
  qed
  from g keys ord plain show ?thesis by blast
qed

theorem cards_order_witness:
  "cleanFilename (js ''[Source: report.pdf, Page 3]'') \<notin> set objectPrototypeKeys \<and>
   cleanFilename (js ''[Source: report.pdf, Page 1]'') \<notin> set objectPrototypeKeys \<and>
   cleanFilename (js ''[Source: notes.txt]'') \<notin> set objectPrototypeKeys \<and>
   \<not> isArrayIndex (cleanFilename (js ''[Source: report.pdf, Page 3]'')) \<and>
   \<not> isArrayIndex (cleanFilename (js ''[Source: report.pdf, Page 1]'')) \<and>
   \<not> isArrayIndex (cleanFilename (js ''[Source: notes.txt]'')) \<and>
   (\<exists>g. groupedSources [js ''[Source: report.pdf, Page 3]'', js ''[Source: report.pdf, Page 1]'',
               js ''[Source: notes.txt]''] = Inr g \<and>
        objectKeys g = [js ''report.pdf'', js ''notes.txt''])"
proof -
  let ?w = "[js ''[Source: report.pdf, Page 3]'', js ''[Source: report.pdf, Page 1]'',
             js ''[Source: notes.txt]'']"
  have c: "cleanFilename (js ''[Source: report.pdf, Page 3]'') \<notin> set objectPrototypeKeys"
    "cleanFilename (js ''[Source: report.pdf, Page 1]'') \<notin> set objectPrototypeKeys"
    "cleanFilename (js ''[Source: notes.txt]'') \<notin> set objectPrototypeKeys"
    by (simp_all add: clean_report_3 clean_report_1 clean_notes report_not_inherited
          notes_not_inherited)
  have i: "\<not> isArrayIndex (cleanFilename (js ''[Source: report.pdf, Page 3]''))"
    "\<not> isArrayIndex (cleanFilename (js ''[Source: report.pdf, Page 1]''))"
    "\<not> isArrayIndex (cleanFilename (js ''[Source: notes.txt]''))"
    by (simp_all add: clean_report_3 clean_report_1 clean_notes report_not_index
          notes_not_index)
  have h1: "\<forall>s \<in> set ?w. cleanFilename s \<notin> set objectPrototypeKeys"
    using c by simp
  have h2: "\<forall>s \<in> set ?w. \<not> isArrayIndex (cleanFilename s)"
    using i by simp
  have fa: "firstAppearance (map cleanFilename ?w) = [js ''report.pdf'', js ''notes.txt'']"
    using notes_neq_report
    by (simp add: firstAppearance_def clean_report_3 clean_report_1 clean_notes)
  from cards_order[OF h1] obtain g where
    g: "groupedSources ?w = Inr g" and
    p: "(\<forall>s \<in> set ?w. \<not> isArrayIndex (cleanFilename s)) \<longrightarrow>
          objectKeys g = firstAppearance (map cleanFilename ?w)"
    by (elim exE conjE)
  from p h2 have "objectKeys g = [js ''report.pdf'', js ''notes.txt'']"
    unfolding fa by (rule mp)
  with g have "\<exists>g. groupedSources ?w = Inr g \<and> objectKeys g = [js ''report.pdf'', js ''notes.txt'']"
    by (intro exI conjI)
  with c i show ?thesis by (intro conjI)
qed

section \<open>Names inherited from the prototype\<close>

lemma parse_constructor: "parseSource (js ''[Source: constructor]'') = (js ''constructor'', None)"
  by (rule parseSource_no_match) (simp_all add: eval_defs)

lemma clean_constructor: "cleanFilename (js ''[Source: constructor]'') = js ''constructor''"
  by (rule cleanFilename_plain[OF parse_constructor]) (simp add: js_def isSep_def)

lemma constructor_inherited: "js ''constructor'' \<in> set objectPrototypeKeys"
  by (simp add: objectPrototypeKeys_def)

lemma parse_toString_2:
  "parseSource (js ''[Source: toString, Page 2]'') = (js ''toString'', Some (js ''2''))"
  by (simp add: parseSource_def eval_defs)

lemma clean_toString_2: "cleanFilename (js ''[Source: toString, Page 2]'') = js ''toString''"
  by (rule cleanFilename_plain[OF parse_toString_2]) (simp add: js_def isSep_def)

lemma toString_inherited: "js ''toString'' \<in> set objectPrototypeKeys"
  by (simp add: objectPrototypeKeys_def)

text \<open>
  C9 (the code at the failing inputs). A raw string whose cleaned filename is the name of
  a property that every plain object inherits, such as \<open>constructor\<close>, creates no entry:
  the input has one distinct cleaned filename and the count shown is 0. With a page, as
  in \<open>toString, Page 2\<close>, the callback throws a \<open>TypeError\<close> instead.
\<close>

theorem inherited_name_count:
  "sourcesGrid [js ''[Source: constructor]''] = Inr (0, []) \<and>
   firstAppearance (map cleanFilename [js ''[Source: constructor]'']) = [js ''constructor''] \<and>
   sourcesGrid [js ''[Source: toString, Page 2]''] = Inl TypeError"
proof -
  have "groupedSources [js ''[Source: constructor]''] = Inr []"
    unfolding groupedSources_def forEachSource.simps addSource_def Let_def
      parse_constructor clean_constructor getProp_def
    using constructor_inherited by simp
  then have a: "sourcesGrid [js ''[Source: constructor]''] = Inr (0, [])"
    by (simp add: sourcesGrid_def uniqueFileCount_def objectKeys_def cards_def)
  have "groupedSources [js ''[Source: toString, Page 2]''] = Inl TypeError"
    unfolding groupedSources_def forEachSource.simps addSource_def Let_def
      parse_toString_2 clean_toString_2 getProp_def
    using toString_inherited by simp
  then have b: "sourcesGrid [js ''[Source: toString, Page 2]''] = Inl TypeError"
    by (simp add: sourcesGrid_def)
  have c: "firstAppearance (map cleanFilename [js ''[Source: constructor]'']) = [js ''constructor'']"
    by (simp add: firstAppearance_def clean_constructor)
  from a b c show ?thesis by simp
qed

section \<open>Labels of the source chips\<close>

lemma removeFirst_single: "removeFirst [x] s = remove1 x s"
  by (induction s) auto

lemma occursAt_Cons_Suc: "occursAt pat (c # t) (Suc i) = occursAt pat t i"
  by (simp add: occursAt_def)

lemma occursAt_0: "occursAt pat s 0 \<longleftrightarrow> take (length pat) s = pat"
proof
  assume "occursAt pat s 0"
  then show "take (length pat) s = pat" by (simp add: occursAt_def)
next
  assume e: "take (length pat) s = pat"
  have "length (take (length pat) s) = min (length pat) (length s)" by simp
  then have "length pat = min (length pat) (length s)" unfolding e by simp
  then have "length pat \<le> length s" by simp
  then show "occursAt pat s 0" using e by (simp add: occursAt_def)
qed

lemma removeFirst_none:
  "(\<forall>i. \<not> occursAt pat s i) \<Longrightarrow> removeFirst pat s = s"
proof (induction s)
  case Nil
  then show ?case by simp
next
  case (Cons c cs)
  have tl: "\<forall>i. \<not> occursAt pat cs i"
    using Cons.prems occursAt_Cons_Suc[of pat c cs] by blast
  have "\<not> occursAt pat (c # cs) 0" using Cons.prems by blast
  then have "take (length pat) (c # cs) \<noteq> pat"
    unfolding occursAt_0 .
  then show ?case using Cons.IH[OF tl] by simp
qed

lemma removeFirst_prefix: "removeFirst pat (pat @ post) = post"
proof (cases "pat @ post")
  case Nil
  then show ?thesis by simp
next
  case (Cons a list)
  have "removeFirst pat (a # list) =
          (if take (length pat) (a # list) = pat then drop (length pat) (a # list)
           else a # removeFirst pat list)"
    by simp
  also have "\<dots> = post" unfolding Cons[symmetric] by simp
  finally show ?thesis unfolding Cons .
qed

lemma removeFirst_first:
  "(\<forall>i < length pre. \<not> occursAt pat (pre @ pat @ post) i) \<Longrightarrow>
     removeFirst pat (pre @ pat @ post) = pre @ post"
proof (induction pre)
  case Nil
  show ?case by (simp add: removeFirst_prefix)
next
  case (Cons c pre)
  have tl: "\<forall>i < length pre. \<not> occursAt pat (pre @ pat @ post) i"
    using Cons.prems occursAt_Cons_Suc[of pat c "pre @ pat @ post"] by auto
  have "\<not> occursAt pat ((c # pre) @ pat @ post) 0" using Cons.prems by simp
  then have "take (length pat) ((c # pre) @ pat @ post) \<noteq> pat"
    unfolding occursAt_0 .
  then show ?case using Cons.IH[OF tl] by simp
qed

lemma js_bracket: "js '']'' = [rbracket]"
  by (simp add: js_def rbracket_def)

text \<open>
  C10. The label of a source chip is the raw string without the first occurrence of
  \<open>[Source: \<close> (unchanged when it does not occur) and then without the first \<open>]\<close>. So a
  string \<open>[Source: body]\<close> whose body has a \<open>]\<close> loses that one, and the closing bracket of
  the wrapper stays at the end of the label.
\<close>

theorem chipLabel_first_occurrences:
  "((\<forall>i. \<not> occursAt (js ''[Source: '') source i) \<longrightarrow>
      chipLabel source = remove1 rbracket source) \<and>
   ((\<forall>i < length pre. \<not> occursAt (js ''[Source: '') (pre @ js ''[Source: '' @ post) i) \<longrightarrow>
      chipLabel (pre @ js ''[Source: '' @ post) = remove1 rbracket (pre @ post)) \<and>
   (rbracket \<in> set body \<longrightarrow>
      chipLabel (js ''[Source: '' @ body @ [rbracket]) = remove1 rbracket body @ [rbracket])"
proof (intro conjI impI)
  assume "\<forall>i. \<not> occursAt (js ''[Source: '') source i"
  then show "chipLabel source = remove1 rbracket source"
    unfolding chipLabel_def js_bracket removeFirst_single
    by (simp add: removeFirst_none)
next
  assume "\<forall>i < length pre. \<not> occursAt (js ''[Source: '') (pre @ js ''[Source: '' @ post) i"
  then show "chipLabel (pre @ js ''[Source: '' @ post) = remove1 rbracket (pre @ post)"
    unfolding chipLabel_def js_bracket removeFirst_single
    by (simp add: removeFirst_first)
next
  assume b: "rbracket \<in> set body"
  have "removeFirst (js ''[Source: '') ([] @ js ''[Source: '' @ (body @ [rbracket]))
          = [] @ (body @ [rbracket])"
    by (rule removeFirst_first) simp
  then show "chipLabel (js ''[Source: '' @ body @ [rbracket]) = remove1 rbracket body @ [rbracket]"
    unfolding chipLabel_def js_bracket removeFirst_single
    using b by (simp add: remove1_append)
qed

theorem chipLabel_first_occurrences_witness:
  "(\<forall>i. \<not> occursAt (js ''[Source: '') (js ''x]'') i) \<and>
   chipLabel (js ''x]'') = js ''x'' \<and>
   \<not> occursAt (js ''[Source: '') (js ''s '' @ js ''[Source: '' @ js ''a]'') 0 \<and>
   \<not> occursAt (js ''[Source: '') (js ''s '' @ js ''[Source: '' @ js ''a]'') 1 \<and>
   length (js ''s '') = 2 \<and>
   chipLabel (js ''s '' @ js ''[Source: '' @ js ''a]'') = js ''s a'' \<and>
   rbracket \<in> set (js ''a]b.pdf'') \<and>
   chipLabel (js ''[Source: '' @ js ''a]b.pdf'' @ [rbracket]) = js ''ab.pdf]''"
proof -
  have h1: "\<forall>i. \<not> occursAt (js ''[Source: '') (js ''x]'') i"
    by (simp add: occursAt_def js_def)
  have o: "\<not> occursAt (js ''[Source: '') (js ''s '' @ js ''[Source: '' @ js ''a]'') 0"
    "\<not> occursAt (js ''[Source: '') (js ''s '' @ js ''[Source: '' @ js ''a]'') 1"
    "length (js ''s '') = 2"
    by (simp_all add: occursAt_def js_def)
  have h2: "\<forall>i < length (js ''s ''). \<not> occursAt (js ''[Source: '') (js ''s '' @ js ''[Source: '' @ js ''a]'') i"
  proof (intro allI impI)
    fix i assume "i < length (js ''s '')"
    then have "i = 0 \<or> i = 1" unfolding o(3) by auto
    then show "\<not> occursAt (js ''[Source: '') (js ''s '' @ js ''[Source: '' @ js ''a]'') i"
      using o(1,2) by auto
  qed
  have h3: "rbracket \<in> set (js ''a]b.pdf'')"
    by (simp add: js_def rbracket_def)
  note t = chipLabel_first_occurrences[of "js ''x]''" "js ''s ''" "js ''a]''" "js ''a]b.pdf''"]
  from t h1 have a: "chipLabel (js ''x]'') = remove1 rbracket (js ''x]'')" by blast
  from t h2 have b: "chipLabel (js ''s '' @ js ''[Source: '' @ js ''a]'')
                       = remove1 rbracket (js ''s '' @ js ''a]'')" by blast
  from t h3 have c: "chipLabel (js ''[Source: '' @ js ''a]b.pdf'' @ [rbracket])
                       = remove1 rbracket (js ''a]b.pdf'') @ [rbracket]" by blast
  have a': "remove1 rbracket (js ''x]'') = js ''x''" by (simp add: js_def rbracket_def)
  have b': "remove1 rbracket (js ''s '' @ js ''a]'') = js ''s a''"
    by (simp add: js_def rbracket_def)
  have c': "remove1 rbracket (js ''a]b.pdf'') @ [rbracket] = js ''ab.pdf]''"
    by (simp add: js_def rbracket_def)
  show ?thesis
    using h1 o h3 a[unfolded a'] b[unfolded b'] c[unfolded c'] by (intro conjI)
qed

section \<open>Similarity of a retrieved candidate\<close>

text \<open>
  C6. For every distance \<open>d \<ge> 0\<close> the similarity \<open>1 / (1 + d)\<close> is greater than 0 and at
  most 1, hence also in the closed interval from 0 to 1, and it is strictly decreasing:
  a larger distance has a strictly smaller similarity.
\<close>

theorem similarity_range:
  "0 \<le> d \<Longrightarrow>
     0 < similarity d \<and> similarity d \<le> 1 \<and> similarity d \<in> {0..1} \<and>
     (\<forall>d'. d < d' \<longrightarrow> similarity d' < similarity d)"
  by (auto simp: similarity_def field_simps)

theorem similarity_range_witness:
  "(0::real) \<le> 1 \<and> 0 < similarity 1 \<and> similarity 1 \<le> 1 \<and> similarity 1 \<in> {0..1} \<and>
   (1::real) < 3 \<and> similarity 3 < similarity 1"
proof -
  have h: "(0::real) \<le> 1" by simp
  have l: "(1::real) < 3" by simp
  from similarity_range[OF h] l have "similarity 3 < similarity 1" by blast
  with h l similarity_range[OF h] show ?thesis by (intro conjI) simp_all
qed

section \<open>Fallback between the providers\<close>

lemma attemptProviders_log:
  "\<exists>k \<le> length ps.
     snd (attemptProviders ps prompt done)
       = done @ map (\<lambda>p. (providerName p, attempt p prompt)) (take k ps)"
proof (induction ps arbitrary: "done")
  case Nil
  then show ?case by simp
next
  case (Cons p ps)
  show ?case
  proof (cases "isFailure (attempt p prompt)")
    case True
    from Cons.IH[of "done @ [(providerName p, attempt p prompt)]"] obtain k where
      k: "k \<le> length ps"
         "snd (attemptProviders ps prompt (done @ [(providerName p, attempt p prompt)]))
            = (done @ [(providerName p, attempt p prompt)]) @
              map (\<lambda>p. (providerName p, attempt p prompt)) (take k ps)"
      by blast
    have "Suc k \<le> length (p # ps)" using k(1) by simp
    moreover have "snd (attemptProviders (p # ps) prompt done)
       = done @ map (\<lambda>p. (providerName p, attempt p prompt)) (take (Suc k) (p # ps))"
      using True k(2) by (simp add: Let_def)
    ultimately show ?thesis by blast
  next
    case False
    have "Suc 0 \<le> length (p # ps)" by simp
    moreover have "snd (attemptProviders (p # ps) prompt done)
       = done @ map (\<lambda>p. (providerName p, attempt p prompt)) (take (Suc 0) (p # ps))"
      using False by (simp add: Let_def)
    ultimately show ?thesis by blast
  qed
qed

text \<open>
  C8. With the providers A and B in this order, when A fails and B succeeds the result is
  B's result and the attempts of the query are one call of A and then one call of B; when
  both fail the query ends with \<open>AllProvidersFailed\<close> after one call of A and one call of
  B. For any provider list the attempts of a query are the first \<open>k\<close> providers of the
  list, each called once, in the configured order: no provider is tried twice.
\<close>

theorem fallback_once_each:
  "(isFailure (attempt A prompt) \<and> \<not> isFailure (attempt B prompt) \<longrightarrow>
      generate [A, B] prompt =
        (Inr (attempt B prompt),
         [(providerName A, attempt A prompt), (providerName B, attempt B prompt)])) \<and>
   (isFailure (attempt A prompt) \<and> isFailure (attempt B prompt) \<longrightarrow>
      generate [A, B] prompt =
        (Inl AllProvidersFailed,
         [(providerName A, attempt A prompt), (providerName B, attempt B prompt)])) \<and>
   (\<exists>k \<le> length providers.
      snd (generate providers prompt)
        = map (\<lambda>p. (providerName p, attempt p prompt)) (take k providers))"
proof (intro conjI impI)
  assume "isFailure (attempt A prompt) \<and> \<not> isFailure (attempt B prompt)"
  then show "generate [A, B] prompt =
        (Inr (attempt B prompt),
         [(providerName A, attempt A prompt), (providerName B, attempt B prompt)])"
    by (simp add: generate_def Let_def)
next
  assume "isFailure (attempt A prompt) \<and> isFailure (attempt B prompt)"
  then show "generate [A, B] prompt =
        (Inl AllProvidersFailed,
         [(providerName A, attempt A prompt), (providerName B, attempt B prompt)])"
    by (simp add: generate_def Let_def)
next
  show "\<exists>k \<le> length providers.
      snd (generate providers prompt)
        = map (\<lambda>p. (providerName p, attempt p prompt)) (take k providers)"
    using attemptProviders_log[of providers prompt "[]"] by (simp add: generate_def)
qed

theorem fallback_once_each_witness:
  "isFailure (attempt \<lparr>providerName = ''primary'', attempt = (\<lambda>q. Failure ''rate limit'')\<rparr> ''question'') \<and>
   \<not> isFailure (attempt \<lparr>providerName = ''fallback'', attempt = (\<lambda>q. SuccessText ''answer'')\<rparr> ''question'') \<and>
   generate [\<lparr>providerName = ''primary'', attempt = (\<lambda>q. Failure ''rate limit'')\<rparr>,
             \<lparr>providerName = ''fallback'', attempt = (\<lambda>q. SuccessText ''answer'')\<rparr>] ''question''
     = (Inr (SuccessText ''answer''),
        [(''primary'', Failure ''rate limit''), (''fallback'', SuccessText ''answer'')]) \<and>
   isFailure (attempt \<lparr>providerName = ''fallback'', attempt = (\<lambda>q. Failure ''timeout'')\<rparr> ''question'') \<and>
   generate [\<lparr>providerName = ''primary'', attempt = (\<lambda>q. Failure ''rate limit'')\<rparr>,
             \<lparr>providerName = ''fallback'', attempt = (\<lambda>q. Failure ''timeout'')\<rparr>] ''question''
     = (Inl AllProvidersFailed,
        [(''primary'', Failure ''rate limit''), (''fallback'', Failure ''timeout'')])"
proof -
  let ?a = "\<lparr>providerName = ''primary'', attempt = (\<lambda>q. Failure ''rate limit'')\<rparr>"
  let ?b = "\<lparr>providerName = ''fallback'', attempt = (\<lambda>q. SuccessText ''answer'')\<rparr>"
  let ?c = "\<lparr>providerName = ''fallback'', attempt = (\<lambda>q. Failure ''timeout'')\<rparr>"
  have h1: "isFailure (attempt ?a ''question'')" by simp
  have h2: "\<not> isFailure (attempt ?b ''question'')" by simp
  have h3: "isFailure (attempt ?c ''question'')" by simp
  from fallback_once_each[of ?a "''question''" ?b "[]"] h1 h2
  have r1: "generate [?a, ?b] ''question'' =
        (Inr (attempt ?b ''question''),
         [(providerName ?a, attempt ?a ''question''), (providerName ?b, attempt ?b ''question'')])"
    by blast
  from fallback_once_each[of ?a "''question''" ?c "[]"] h1 h3
  have r2: "generate [?a, ?c] ''question'' =
        (Inl AllProvidersFailed,
         [(providerName ?a, attempt ?a ''question''), (providerName ?c, attempt ?c ''question'')])"
    by blast
  show ?thesis using h1 h2 h3 r1 r2 by simp
qed

end
